theory Spec2Isabelle
  imports
    Complex_Main
    "HOL-Library.AList"
    "HOL-Library.Char_ord"
    "HOL-Library.List_Lexorder"
    "HOL-Library.Multiset"
begin

section \<open>Python values used by digitake.preprocess\<close>

text \<open>
  Class labels and file paths are Python \<open>str\<close>; they are compared with the
  lexicographic order on character lists (\<open>Char_ord\<close>, \<open>List_Lexorder\<close>), which is
  Python's order on strings. Python integers are unbounded, hence \<open>int\<close>.
  A \<open>dict\<close> keeps its insertion order, which the code observes when it iterates,
  so a dictionary is an association list; \<open>d[k] = v\<close> is \<open>AList.update\<close> (an existing
  key keeps its place, a new key goes last).
\<close>

type_synonym label = string
type_synonym path = string
type_synonym 'v pydict = "(label \<times> 'v) list"

text \<open>
  An exception is its class and the pieces of its (formatted) message: the literal
  text of the f-string and the values interpolated into it.
\<close>

datatype exn_class =
  IndexError | AssertionError | Exception | ZeroDivisionError | KeyError | OverflowError

datatype fpart = Lit string | Str string | Num int

type_synonym error = "exn_class \<times> fpart list"

text \<open>\<open>d[k]\<close> on a dictionary: \<open>KeyError\<close> on a missing key.\<close>

definition dict_get :: "'v pydict \<Rightarrow> label \<Rightarrow> error + 'v" where
  "dict_get d k = (case map_of d k of None \<Rightarrow> Inl (KeyError, [Str k]) | Some v \<Rightarrow> Inr v)"

text \<open>\<open>xs[i]\<close> on a list; an index \<open>-n\<close> down to \<open>-len(xs)\<close> reads from the end.\<close>

definition list_get :: "'a list \<Rightarrow> int \<Rightarrow> error + 'a" where
  "list_get xs i =
     (if 0 \<le> i \<and> i < int (length xs) then Inr (xs ! nat i)
      else if i < 0 \<and> - i \<le> int (length xs) then Inr (xs ! nat (int (length xs) + i))
      else Inl (IndexError, [Lit ''list index out of range'']))"

text \<open>The slices \<open>xs[i:]\<close> and \<open>xs[:i]\<close>: a negative bound counts from the end, and
  bounds are clamped to the list.\<close>

definition slice_from :: "'a list \<Rightarrow> int \<Rightarrow> 'a list" where
  "slice_from xs i =
     (let n = int (length xs); start = (if i < 0 then max (n + i) 0 else min i n)
      in drop (nat start) xs)"

definition slice_upto :: "'a list \<Rightarrow> int \<Rightarrow> 'a list" where
  "slice_upto xs i =
     (let n = int (length xs); stop = (if i < 0 then max (n + i) 0 else min i n)
      in take (nat stop) xs)"

section \<open>The transformation pipe: \<open>get_transform\<close>\<close>

text \<open>
  The torchvision objects are configuration: a transform is the constructor that the
  code calls, with the arguments it passes. The decimal literals of the source are
  kept as the numbers they denote. The resize dimension \<open>int(n * 1.1)\<close> is a
  floating-point product, which raises \<open>OverflowError\<close> for an \<open>n\<close> beyond the range of
  the floats; it is the parameter \<open>enlarge_dim\<close>, which gives the dimension or the
  error. Both dimensions are computed first, width before height; then the dictionary
  is built and the phase is looked up.
\<close>

datatype interpolation_mode = NEAREST | BILINEAR

datatype transform =
    Resize "int \<times> int"
  | RandomRotation int interpolation_mode bool
  | CenterCrop "int \<times> int"
  | RandomHorizontalFlip real
  | RandomPerspective real
  | ColorJitter real real
  | RandomApply "transform list" real
  | ToTensor
  | Normalize "real list" "real list"
  | Compose "transform list"

definition imagenet_mean :: "real list" where
  "imagenet_mean = [0.485, 0.456, 0.406]"

definition imagenet_std :: "real list" where
  "imagenet_std = [0.229, 0.224, 0.225]"

definition transform_dict :: "transform \<Rightarrow> int \<times> int \<Rightarrow> transform pydict" where
  "transform_dict enlarge target_size =
     (let imagenet_normalize = Normalize imagenet_mean imagenet_std
      in [(''train'', Compose [
             enlarge,
             RandomRotation 45 BILINEAR True,
             CenterCrop target_size,
             RandomHorizontalFlip 0.5,
             RandomPerspective 0.2,
             RandomApply [ColorJitter 0.126 0.2] 0.5,
             ToTensor,
             imagenet_normalize]),
          (''val'', Compose [
             enlarge,
             CenterCrop target_size,
             ToTensor,
             imagenet_normalize]),
          (''test'', Compose [
             enlarge,
             CenterCrop target_size,
             ToTensor,
             imagenet_normalize])])"

definition get_transform ::
  "(int \<Rightarrow> error + int) \<Rightarrow> int \<times> int \<Rightarrow> string \<Rightarrow> error + transform" where
  "get_transform enlarge_dim target_size phase =
     (case enlarge_dim (fst target_size) of
        Inl e \<Rightarrow> Inl e
      | Inr width \<Rightarrow>
          (case enlarge_dim (snd target_size) of
             Inl e \<Rightarrow> Inl e
           | Inr height \<Rightarrow>
               (case map_of (transform_dict (Resize (width, height)) target_size) phase of
                  Some t \<Rightarrow> Inr t
                | None \<Rightarrow> Inl (Exception, [Lit ''Unknown pharse specified'']))))"

section \<open>Collecting paths and splitting: \<open>build_dataset\<close>, \<open>build_train_validation_set\<close>\<close>

text \<open>
  \<open>os.path.join\<close> and \<open>glob.glob\<close> are the parameters \<open>path_join\<close> and \<open>glob\<close>
  (the file system is not part of the program). The loop \<open>for key in datasource\<close>
  runs over the keys in insertion order.
\<close>

fun build_dataset_loop ::
  "(string \<Rightarrow> string \<Rightarrow> string \<Rightarrow> string) \<Rightarrow> (string \<Rightarrow> path list) \<Rightarrow> string pydict \<Rightarrow>
   string \<Rightarrow> string \<Rightarrow> label list \<Rightarrow> path list pydict \<Rightarrow> error + path list pydict" where
  "build_dataset_loop path_join glob datasource root' ext [] datasets = Inr datasets"
| "build_dataset_loop path_join glob datasource root' ext (key # keys) datasets =
     (case dict_get datasource key of
        Inl e \<Rightarrow> Inl e
      | Inr dir \<Rightarrow>
          build_dataset_loop path_join glob datasource root' ext keys
            (AList.update key (glob (path_join root' dir ext)) datasets))"

definition build_dataset ::
  "(string \<Rightarrow> string \<Rightarrow> string \<Rightarrow> string) \<Rightarrow> (string \<Rightarrow> path list) \<Rightarrow> string pydict \<Rightarrow>
   string \<Rightarrow> string \<Rightarrow> error + path list pydict" where
  "build_dataset path_join glob datasource root' ext =
     build_dataset_loop path_join glob datasource root' ext (map fst datasource) []"

text \<open>
  The local variables of \<open>build_train_validation_set\<close> that its loop updates. What
  the function prints is not modelled, except that the printed ratio
  \<open>t_size / ds_size\<close> raises \<open>ZeroDivisionError\<close> when \<open>ds_size\<close> is 0.
\<close>

record split_vars =
  training_set :: "path list pydict"
  validation_set :: "path list pydict"
  total_training_set :: int
  total_validation_set :: int
  total_dataset :: int

definition size_message :: "label \<Rightarrow> int \<Rightarrow> int \<Rightarrow> fpart list" where
  "size_message key ds_size val_size =
     [Lit (''The size of dataset '' @ [CHR 0x27]), Str key, Lit (CHR 0x27 # ''(''), Num ds_size,
      Lit '') is smaller than validation size('', Num val_size, Lit '')'']"

fun split_loop :: "path list pydict \<Rightarrow> int \<Rightarrow> label list \<Rightarrow> split_vars \<Rightarrow> error + split_vars" where
  "split_loop datasets val_size [] vars = Inr vars"
| "split_loop datasets val_size (key # keys) vars =
     (case dict_get datasets key of
        Inl e \<Rightarrow> Inl e
      | Inr paths \<Rightarrow>
          (let ds_size = int (length paths) in
           if \<not> val_size < ds_size
           then Inl (AssertionError, size_message key ds_size val_size)
           else
             (let train = slice_from paths val_size;
                  t_size = int (length train) in
              if ds_size = 0 then Inl (ZeroDivisionError, [Lit ''division by zero''])
              else
                (let val = slice_upto paths val_size;
                     v_size = int (length val) in
                 split_loop datasets val_size keys
                   (vars\<lparr>training_set := AList.update key train (training_set vars),
                          validation_set := AList.update key val (validation_set vars),
                          total_training_set := total_training_set vars + t_size,
                          total_validation_set := total_validation_set vars + v_size,
                          total_dataset := total_dataset vars + ds_size\<rparr>)))))"

definition build_train_validation_set ::
  "(string \<Rightarrow> string \<Rightarrow> string \<Rightarrow> string) \<Rightarrow> (string \<Rightarrow> path list) \<Rightarrow> string pydict \<Rightarrow>
   int \<Rightarrow> string \<Rightarrow> string \<Rightarrow> error + (path list pydict \<times> path list pydict)" where
  "build_train_validation_set path_join glob datasource val_size root' ext =
     (case build_dataset path_join glob datasource root' ext of
        Inl e \<Rightarrow> Inl e
      | Inr datasets \<Rightarrow>
          (case split_loop datasets val_size (map fst datasets)
                  \<lparr>training_set = [], validation_set = [], total_training_set = 0,
                   total_validation_set = 0, total_dataset = 0\<rparr> of
             Inl e \<Rightarrow> Inl e
           | Inr vars \<Rightarrow> Inr (training_set vars, validation_set vars)))"

section \<open>The dataset: \<open>ThyroidDataset\<close>\<close>

text \<open>
  The fields of an instance on which \<open>set_dataset\<close> has run. The configured
  transform is of any type \<open>'t\<close>: a \<open>transform\<close> from \<open>get_transform\<close> or one the
  caller supplied.
\<close>

record 't thyroid_dataset =
  phase :: string
  transform :: 't
  dataset :: "path list pydict"
  partition' :: "(label \<times> int) list"

text \<open>
  \<open>sorted(self.dataset.items())\<close> orders the (key, value) pairs; the keys of a
  dictionary are distinct, so the order is the order of the keys.
\<close>

definition set_dataset :: "'t thyroid_dataset \<Rightarrow> path list pydict \<Rightarrow> 't thyroid_dataset" where
  "set_dataset self ds =
     self\<lparr>dataset := ds,
          partition' := map (\<lambda>(k, v). (k, int (length v))) (sort_key fst ds)\<rparr>"

text \<open>\<open>__len__\<close>: \<open>sum(values, [])\<close> appends the path lists from the left.\<close>

definition len :: "'t thyroid_dataset \<Rightarrow> int" where
  "len self = int (length (foldl (@) [] (map snd (dataset self))))"

text \<open>The \<open>for\<close> loop of \<open>__get_partitioned_index\<close>, with its two variables.\<close>

fun partition_walk :: "(label \<times> int) list \<Rightarrow> int \<Rightarrow> int \<Rightarrow> error + (label \<times> int \<times> int)" where
  "partition_walk [] index class_num =
     Inl (IndexError, [Lit ''Index is out of range '', Num index])"
| "partition_walk ((k, v) # rest) index class_num =
     (if index \<ge> v then partition_walk rest (index - v) (class_num + 1)
      else Inr (k, class_num, index))"

definition get_partitioned_index :: "'t thyroid_dataset \<Rightarrow> int \<Rightarrow> error + (label \<times> int \<times> int)" where
  "get_partitioned_index self index =
     (if index < 0 then Inl (IndexError, [Lit ''Index must not be negative''])
      else partition_walk (partition' self) index 0)"

text \<open>
  \<open>__getitem__\<close>. Opening the image (\<open>Image.open(path).convert('RGB')\<close>) and applying
  the transform are the parameters \<open>open_image\<close> and \<open>apply_transform\<close>; both may raise.
\<close>

record extra =
  extra_path :: path
  extra_label :: label
  extra_class_index :: int
  extra_inclass_index :: int

definition getitem ::
  "(path \<Rightarrow> error + 'img) \<Rightarrow> ('t \<Rightarrow> 'img \<Rightarrow> error + 'tensor) \<Rightarrow> 't thyroid_dataset \<Rightarrow> int \<Rightarrow>
   error + ('tensor \<times> int \<times> extra)" where
  "getitem open_image apply_transform self index =
     (case get_partitioned_index self index of
        Inl e \<Rightarrow> Inl e
      | Inr (label, class_index, index') \<Rightarrow>
          (case dict_get (dataset self) label of
             Inl e \<Rightarrow> Inl e
           | Inr paths \<Rightarrow>
               (case list_get paths index' of
                  Inl e \<Rightarrow> Inl e
                | Inr path \<Rightarrow>
                    (case open_image path of
                       Inl e \<Rightarrow> Inl e
                     | Inr image' \<Rightarrow>
                         (case apply_transform (transform self) image' of
                            Inl e \<Rightarrow> Inl e
                          | Inr transformed_image \<Rightarrow>
                              Inr (transformed_image, class_index,
                                   \<lparr>extra_path = path, extra_label = label,
                                    extra_class_index = class_index,
                                    extra_inclass_index = index'\<rparr>))))))"

definition get_class_label :: "'t thyroid_dataset \<Rightarrow> int \<Rightarrow> error + label" where
  "get_class_label self class_index =
     (if \<not> class_index < int (length (partition' self))
      then Inl (AssertionError, [Lit ''The class_index is beyond number of class available''])
      else (case list_get (partition' self) class_index of
              Inl e \<Rightarrow> Inl e
            | Inr entry \<Rightarrow> Inr (fst entry)))"

section \<open>Length and partition table\<close>

lemma foldl_append_concat: "foldl (@) acc xss = acc @ concat xss"
  by (induction xss arbitrary: acc) simp_all

lemma len_sum: "len (set_dataset self ds) = (\<Sum>kv\<leftarrow>ds. int (length (snd kv)))"
  by (simp add: len_def set_dataset_def foldl_append_concat length_concat comp_def
      flip: sum_list_of_nat)

lemma sum_list_sort_key:
  fixes g :: "'a \<Rightarrow> int"
  shows "sum_list (map g (sort_key f xs)) = sum_list (map g xs)"
proof -
  have "mset (map g (sort_key f xs)) = mset (map g xs)" by simp
  then show ?thesis by (metis sum_mset_sum_list)
qed

lemma partition_counts:
  "map snd (partition' (set_dataset self ds)) = map (\<lambda>kv. int (length (snd kv))) (sort_key fst ds)"
  by (simp add: set_dataset_def case_prod_unfold comp_def)

lemma partition_labels:
  "map fst (partition' (set_dataset self ds)) = map fst (sort_key fst ds)"
  by (simp add: set_dataset_def case_prod_unfold comp_def)

lemma partition_sum:
  "sum_list (map snd (partition' (set_dataset self ds))) = len (set_dataset self ds)"
  by (simp only: partition_counts len_sum sum_list_sort_key)

lemma partition_nonneg: "\<forall>kv \<in> set (partition' (set_dataset self ds)). 0 \<le> snd kv"
  by (auto simp: set_dataset_def)

section \<open>The walk over the partition table\<close>

text \<open>
  A walk that returns has stopped at some position \<open>j\<close> of the table: the class number
  is the start value plus \<open>j\<close>, and the index splits into the counts before \<open>j\<close> and
  an offset below the count at \<open>j\<close>.
\<close>

lemma partition_walk_Inr:
  "partition_walk pt i c = Inr (k, c', off) \<Longrightarrow> 0 \<le> i \<Longrightarrow> \<forall>kv \<in> set pt. 0 \<le> snd kv \<Longrightarrow>
   \<exists>j < length pt. c' = c + int j \<and> fst (pt ! j) = k \<and> i = sum_list (map snd (take j pt)) + off
      \<and> 0 \<le> off \<and> off < snd (pt ! j)"
proof (induction pt arbitrary: i c)
  case Nil
  then show ?case by simp
next
  case (Cons kv pt)
  obtain k0 v where kv: "kv = (k0, v)" by (cases kv)
  show ?case
  proof (cases "v \<le> i")
    case True
    with Cons.prems(1) kv have w: "partition_walk pt (i - v) (c + 1) = Inr (k, c', off)" by simp
    from True have i': "0 \<le> i - v" by simp
    from Cons.prems(3) have nn: "\<forall>kv \<in> set pt. 0 \<le> snd kv" by simp
    from Cons.IH [OF w i' nn]
    obtain j where j: "j < length pt" "c' = c + 1 + int j" "fst (pt ! j) = k"
      "i - v = sum_list (map snd (take j pt)) + off" "0 \<le> off" "off < snd (pt ! j)"
      by blast
    have "Suc j < length (kv # pt)" using j(1) by simp
    moreover have "c' = c + int (Suc j)" using j(2) by simp
    moreover have "fst ((kv # pt) ! Suc j) = k" using j(3) by simp
    moreover have "i = sum_list (map snd (take (Suc j) (kv # pt))) + off"
      using j(4) kv by simp
    moreover have "off < snd ((kv # pt) ! Suc j)" using j(6) by simp
    ultimately show ?thesis using j(5) by blast
  next
    case False
    with Cons.prems(1) kv have r: "k = k0" "c' = c" "off = i" by simp_all
    have "0 < length (kv # pt)" by simp
    moreover have "c' = c + int 0" using r by simp
    moreover have "fst ((kv # pt) ! 0) = k" using r kv by simp
    moreover have "i = sum_list (map snd (take 0 (kv # pt))) + off" using r by simp
    moreover have "off < snd ((kv # pt) ! 0)" using r kv False by simp
    moreover have "0 \<le> off" using r Cons.prems(2) by simp
    ultimately show ?thesis by blast
  qed
qed

lemma partition_walk_in_range:
  "0 \<le> i \<Longrightarrow> i < sum_list (map snd pt) \<Longrightarrow> \<exists>t. partition_walk pt i c = Inr t"
  by (induction pt arbitrary: i c) auto

lemma partition_walk_out_of_range:
  "sum_list (map snd pt) \<le> i \<Longrightarrow> \<forall>kv \<in> set pt. 0 \<le> snd kv \<Longrightarrow>
   partition_walk pt i c =
     Inl (IndexError, [Lit ''Index is out of range '', Num (i - sum_list (map snd pt))])"
proof (induction pt arbitrary: i c)
  case Nil
  then show ?case by simp
next
  case (Cons kv pt)
  obtain k0 v where kv: "kv = (k0, v)" by (cases kv)
  from Cons.prems kv have "0 \<le> v" "0 \<le> sum_list (map snd pt)"
    by (auto intro!: sum_list_nonneg)
  with Cons.prems kv have "v \<le> i" "sum_list (map snd pt) \<le> i - v" by simp_all
  with Cons.IH [of "i - v" "c + 1"] Cons.prems(2) kv show ?case
    by (simp add: algebra_simps)
qed

text \<open>The same for \<open>__get_partitioned_index\<close> on the sorted items of the mapping.\<close>

lemma resolve_position:
  assumes "get_partitioned_index (set_dataset self ds) i = Inr (k, c, off)"
  shows "\<exists>j < length ds. c = int j \<and> fst (sort_key fst ds ! j) = k
           \<and> i = (\<Sum>kv\<leftarrow>take j (sort_key fst ds). int (length (snd kv))) + off
           \<and> 0 \<le> off \<and> off < int (length (snd (sort_key fst ds ! j)))"
proof -
  let ?pt = "partition' (set_dataset self ds)"
  from assms have i: "0 \<le> i" and w: "partition_walk ?pt i 0 = Inr (k, c, off)"
    by (simp_all add: get_partitioned_index_def split: if_splits)
  from partition_walk_Inr [OF w i partition_nonneg]
  obtain j where j: "j < length ?pt" "c = 0 + int j" "fst (?pt ! j) = k"
    "i = sum_list (map snd (take j ?pt)) + off" "0 \<le> off" "off < snd (?pt ! j)"
    by blast
  have pt: "?pt = map (\<lambda>kv. (fst kv, int (length (snd kv)))) (sort_key fst ds)"
    by (simp add: set_dataset_def case_prod_unfold)
  have jl: "j < length ds" using j(1) by (simp add: pt)
  have "c = int j" using j(2) by simp
  moreover have "fst (sort_key fst ds ! j) = k" using j(3) jl by (simp add: pt)
  moreover have "i = (\<Sum>kv\<leftarrow>take j (sort_key fst ds). int (length (snd kv))) + off"
    using j(4) by (simp add: pt take_map comp_def)
  moreover have "off < int (length (snd (sort_key fst ds ! j)))" using j(6) jl by (simp add: pt)
  ultimately show ?thesis using jl j(5) by blast
qed

lemma resolve_in_range:
  assumes "0 \<le> i" "i < len (set_dataset self ds)"
  shows "\<exists>k c off. get_partitioned_index (set_dataset self ds) i = Inr (k, c, off)"
proof -
  from assms(2) have "i < sum_list (map snd (partition' (set_dataset self ds)))"
    by (simp only: partition_sum)
  from partition_walk_in_range [OF assms(1) this, of 0] assms(1)
  obtain t where "get_partitioned_index (set_dataset self ds) i = Inr t"
    by (auto simp add: get_partitioned_index_def)
  then show ?thesis by (cases t) auto
qed

lemma length_partition: "length (partition' (set_dataset self ds)) = length ds"
  by (simp add: set_dataset_def)

lemma partition_nth:
  "j < length ds \<Longrightarrow> partition' (set_dataset self ds) ! j =
     (fst (sort_key fst ds ! j), int (length (snd (sort_key fst ds ! j))))"
  by (simp add: set_dataset_def case_prod_unfold)

lemma resolve_partition:
  assumes "get_partitioned_index (set_dataset self ds) i = Inr (k, c, off)"
  shows "\<exists>j < length ds. c = int j \<and> fst (partition' (set_dataset self ds) ! j) = k
           \<and> i = sum_list (map snd (take j (partition' (set_dataset self ds)))) + off
           \<and> 0 \<le> off \<and> off < snd (partition' (set_dataset self ds) ! j)"
proof -
  let ?pt = "partition' (set_dataset self ds)"
  from assms have i: "0 \<le> i" and w: "partition_walk ?pt i 0 = Inr (k, c, off)"
    by (simp_all add: get_partitioned_index_def split: if_splits)
  from partition_walk_Inr [OF w i partition_nonneg]
  obtain j where j: "j < length ?pt" "c = 0 + int j" "fst (?pt ! j) = k"
    "i = sum_list (map snd (take j ?pt)) + off" "0 \<le> off" "off < snd (?pt ! j)"
    by blast
  have "j < length ds" using j(1) by (simp only: length_partition)
  moreover have "c = int j" using j(2) by simp
  ultimately show ?thesis using j(3-6) by blast
qed

lemma resolve_state_independent:
  "get_partitioned_index (set_dataset self' ds) i = get_partitioned_index (set_dataset self ds) i"
  by (simp add: get_partitioned_index_def set_dataset_def)

section \<open>Properties of the dataset\<close>

text \<open>
  C7. After \<open>set_dataset\<close>, the length is the sum of the lengths of the path lists of
  the mapping that was supplied (a class with no path adds 0), the counts of the
  rebuilt partition table add up to that length, and the table has the labels of the
  mapping in ascending order.
\<close>

theorem set_dataset_length_partition:
  "dataset (set_dataset self ds) = ds
   \<and> partition' (set_dataset self ds) = map (\<lambda>(k, v). (k, int (length v))) (sort_key fst ds)
   \<and> len (set_dataset self ds) = (\<Sum>kv\<leftarrow>ds. int (length (snd kv)))
   \<and> sum_list (map snd (partition' (set_dataset self ds))) = len (set_dataset self ds)
   \<and> sorted (map fst (partition' (set_dataset self ds)))
   \<and> mset (map fst (partition' (set_dataset self ds))) = mset (map fst ds)"
proof -
  have "sorted (map fst (partition' (set_dataset self ds)))"
    by (simp only: partition_labels sorted_sort_key)
  moreover have "mset (map fst (partition' (set_dataset self ds))) = mset (map fst ds)"
    by (simp only: partition_labels mset_map mset_sort)
  moreover have "dataset (set_dataset self ds) = ds"
    by (simp add: set_dataset_def)
  moreover have "partition' (set_dataset self ds) = map (\<lambda>(k, v). (k, int (length v))) (sort_key fst ds)"
    by (simp add: set_dataset_def)
  ultimately show ?thesis
    using len_sum [of self ds] partition_sum [of self ds] by blast
qed

text \<open>
  C3. \<open>__get_partitioned_index\<close> raises \<open>IndexError\<close> for every negative index and for every
  index from the length upwards, and returns for every index in between.
\<close>

theorem get_partitioned_index_IndexError:
  "(index < 0 \<longrightarrow>
      get_partitioned_index (set_dataset self ds) index =
        Inl (IndexError, [Lit ''Index must not be negative'']))
   \<and> (len (set_dataset self ds) \<le> index \<longrightarrow>
      get_partitioned_index (set_dataset self ds) index =
        Inl (IndexError, [Lit ''Index is out of range '', Num (index - len (set_dataset self ds))]))
   \<and> (0 \<le> index \<and> index < len (set_dataset self ds) \<longrightarrow>
      (\<exists>t. get_partitioned_index (set_dataset self ds) index = Inr t))"
proof (intro conjI impI)
  assume "index < 0"
  then show "get_partitioned_index (set_dataset self ds) index =
        Inl (IndexError, [Lit ''Index must not be negative''])"
    by (simp add: get_partitioned_index_def)
next
  assume a: "len (set_dataset self ds) \<le> index"
  have "0 \<le> len (set_dataset self ds)" by (simp add: len_def)
  with a have nn: "\<not> index < 0" by simp
  from a have "sum_list (map snd (partition' (set_dataset self ds))) \<le> index"
    by (simp only: partition_sum)
  from partition_walk_out_of_range [OF this partition_nonneg, of 0]
  show "get_partitioned_index (set_dataset self ds) index =
        Inl (IndexError, [Lit ''Index is out of range '', Num (index - len (set_dataset self ds))])"
    using nn by (simp only: get_partitioned_index_def partition_sum if_False)
next
  assume a: "0 \<le> index \<and> index < len (set_dataset self ds)"
  then have "index < sum_list (map snd (partition' (set_dataset self ds)))"
    by (simp only: partition_sum)
  from partition_walk_in_range [OF _ this, of 0] a
  show "\<exists>t. get_partitioned_index (set_dataset self ds) index = Inr t"
    by (simp add: get_partitioned_index_def)
qed

theorem get_partitioned_index_IndexError_witness:
  "(-1::int) < 0
   \<and> get_partitioned_index
        (set_dataset \<lparr>phase = ''val'', transform = (), dataset = [], partition' = []\<rparr>
           [(''benign'', [''b1'', ''b2'']), (''malignant'', [''m1''])]) (-1) =
      Inl (IndexError, [Lit ''Index must not be negative''])
   \<and> len (set_dataset \<lparr>phase = ''val'', transform = (), dataset = [], partition' = []\<rparr>
           [(''benign'', [''b1'', ''b2'']), (''malignant'', [''m1''])]) \<le> 5
   \<and> get_partitioned_index
        (set_dataset \<lparr>phase = ''val'', transform = (), dataset = [], partition' = []\<rparr>
           [(''benign'', [''b1'', ''b2'']), (''malignant'', [''m1''])]) 5 =
      Inl (IndexError, [Lit ''Index is out of range '', Num 2])
   \<and> (\<exists>t. get_partitioned_index
        (set_dataset \<lparr>phase = ''val'', transform = (), dataset = [], partition' = []\<rparr>
           [(''benign'', [''b1'', ''b2'']), (''malignant'', [''m1''])]) 1 = Inr t)"
proof -
  let ?s = "set_dataset \<lparr>phase = ''val'', transform = (), dataset = [], partition' = []\<rparr>
           [(''benign'', [''b1'', ''b2'']), (''malignant'', [''m1''])]"
  have l: "len ?s = 3" by (simp add: len_sum)
  show ?thesis
    using get_partitioned_index_IndexError [of "-1" "\<lparr>phase = ''val'', transform = (), dataset = [], partition' = []\<rparr>"
        "[(''benign'', [''b1'', ''b2'']), (''malignant'', [''m1''])]"]
      get_partitioned_index_IndexError [of 5 "\<lparr>phase = ''val'', transform = (), dataset = [], partition' = []\<rparr>"
        "[(''benign'', [''b1'', ''b2'']), (''malignant'', [''m1''])]"]
      get_partitioned_index_IndexError [of 1 "\<lparr>phase = ''val'', transform = (), dataset = [], partition' = []\<rparr>"
        "[(''benign'', [''b1'', ''b2'']), (''malignant'', [''m1''])]"]
    by (simp add: l)
qed

text \<open>
  C2. For every index from 0 up to the length, \<open>__get_partitioned_index\<close> returns a
  triple; the triple depends on the mapping and the index only (not on the other
  fields of the instance); and no other index in range gives the same triple.
\<close>

theorem get_partitioned_index_injective:
  assumes "0 \<le> i" "i < len (set_dataset self ds)"
  shows "(\<exists>k c off. get_partitioned_index (set_dataset self ds) i = Inr (k, c, off))
     \<and> get_partitioned_index (set_dataset self' ds) i = get_partitioned_index (set_dataset self ds) i
     \<and> (\<forall>j. 0 \<le> j \<and> j < len (set_dataset self ds)
            \<and> get_partitioned_index (set_dataset self ds) j = get_partitioned_index (set_dataset self ds) i
          \<longrightarrow> j = i)"
proof -
  let ?S = "set_dataset self ds"
  from resolve_in_range [OF assms] obtain k c off
    where r: "get_partitioned_index ?S i = Inr (k, c, off)" by blast
  have inj: "j = i" if "get_partitioned_index ?S j = get_partitioned_index ?S i" for j
  proof -
    from that r have rj: "get_partitioned_index ?S j = Inr (k, c, off)" by simp
    from resolve_partition [OF r] obtain a where
      a: "c = int a" "i = sum_list (map snd (take a (partition' ?S))) + off" by blast
    from resolve_partition [OF rj] obtain b where
      b: "c = int b" "j = sum_list (map snd (take b (partition' ?S))) + off" by blast
    from a(1) b(1) have "a = b" by simp
    with a(2) b(2) show ?thesis by simp
  qed
  from r have "\<exists>k c off. get_partitioned_index ?S i = Inr (k, c, off)" by blast
  moreover note resolve_state_independent [of self' ds i self]
  moreover from inj have "\<forall>j. 0 \<le> j \<and> j < len ?S
            \<and> get_partitioned_index ?S j = get_partitioned_index ?S i \<longrightarrow> j = i" by blast
  ultimately show ?thesis by blast
qed

text \<open>
  C4. For every index in range, \<open>get_class_label\<close> applied to the class number that
  \<open>__get_partitioned_index\<close> returns gives the label that it returns.
\<close>

theorem get_class_label_round_trip:
  assumes "0 \<le> i" "i < len (set_dataset self ds)"
  shows "\<exists>label c off. get_partitioned_index (set_dataset self ds) i = Inr (label, c, off)
           \<and> get_class_label (set_dataset self ds) c = Inr label"
proof -
  let ?S = "set_dataset self ds"
  from resolve_in_range [OF assms] obtain k c off
    where r: "get_partitioned_index ?S i = Inr (k, c, off)" by blast
  from resolve_partition [OF r] obtain j where
    j: "j < length ds" "c = int j" "fst (partition' ?S ! j) = k" by blast
  from j(1) have "j < length (partition' ?S)" by (simp only: length_partition)
  then have "get_class_label ?S (int j) = Inr (fst (partition' ?S ! j))"
    by (simp add: get_class_label_def list_get_def)
  with j(2,3) have "get_class_label ?S c = Inr k" by simp
  with r show ?thesis by blast
qed

theorem get_partitioned_index_injective_witness:
  "(0::int) \<le> 2
   \<and> 2 < len (set_dataset \<lparr>phase = ''val'', transform = (), dataset = [], partition' = []\<rparr>
           [(''malignant'', [''m1'']), (''benign'', [''b1'', ''b2''])])
   \<and> get_partitioned_index
        (set_dataset \<lparr>phase = ''val'', transform = (), dataset = [], partition' = []\<rparr>
           [(''malignant'', [''m1'']), (''benign'', [''b1'', ''b2''])]) 2 = Inr (''malignant'', 1, 0)
   \<and> get_partitioned_index
        (set_dataset \<lparr>phase = ''train'', transform = (), dataset = [], partition' = []\<rparr>
           [(''malignant'', [''m1'']), (''benign'', [''b1'', ''b2''])]) 2 = Inr (''malignant'', 1, 0)
   \<and> get_partitioned_index
        (set_dataset \<lparr>phase = ''val'', transform = (), dataset = [], partition' = []\<rparr>
           [(''malignant'', [''m1'']), (''benign'', [''b1'', ''b2''])]) 0 \<noteq> Inr (''malignant'', 1, 0)
   \<and> get_partitioned_index
        (set_dataset \<lparr>phase = ''val'', transform = (), dataset = [], partition' = []\<rparr>
           [(''malignant'', [''m1'']), (''benign'', [''b1'', ''b2''])]) 1 \<noteq> Inr (''malignant'', 1, 0)"
proof -
  let ?s = "\<lparr>phase = ''val'', transform = (), dataset = [], partition' = []\<rparr>"
  let ?s' = "\<lparr>phase = ''train'', transform = (), dataset = [], partition' = []\<rparr>"
  let ?ds = "[(''malignant'', [''m1'']), (''benign'', [''b1'', ''b2''])]"
  have l: "len (set_dataset ?s ?ds) = 3" by (simp add: len_sum)
  have r: "get_partitioned_index (set_dataset ?s ?ds) 2 = Inr (''malignant'', 1, 0)"
    by (simp add: get_partitioned_index_def set_dataset_def)
  have h1: "(0::int) \<le> 2" by simp
  have h2: "2 < len (set_dataset ?s ?ds)" by (simp add: l)
  note t = get_partitioned_index_injective [OF h1 h2, of ?s']
  from t have same: "get_partitioned_index (set_dataset ?s' ?ds) 2 =
      get_partitioned_index (set_dataset ?s ?ds) 2" by blast
  from t have inj: "\<And>j. 0 \<le> j \<Longrightarrow> j < len (set_dataset ?s ?ds) \<Longrightarrow>
      get_partitioned_index (set_dataset ?s ?ds) j = get_partitioned_index (set_dataset ?s ?ds) 2
      \<Longrightarrow> j = 2" by blast
  from inj [of 0] have n0: "get_partitioned_index (set_dataset ?s ?ds) 0 \<noteq> Inr (''malignant'', 1, 0)"
    by (auto simp add: l r)
  from inj [of 1] have n1: "get_partitioned_index (set_dataset ?s ?ds) 1 \<noteq> Inr (''malignant'', 1, 0)"
    by (auto simp add: l r)
  from h1 h2 r same n0 n1 show ?thesis by simp
qed

theorem get_class_label_round_trip_witness:
  "(0::int) \<le> 2
   \<and> 2 < len (set_dataset \<lparr>phase = ''val'', transform = (), dataset = [], partition' = []\<rparr>
           [(''malignant'', [''m1'']), (''benign'', [''b1'', ''b2''])])
   \<and> (\<exists>label c off. get_partitioned_index
        (set_dataset \<lparr>phase = ''val'', transform = (), dataset = [], partition' = []\<rparr>
           [(''malignant'', [''m1'']), (''benign'', [''b1'', ''b2''])]) 2 = Inr (label, c, off)
        \<and> get_class_label
        (set_dataset \<lparr>phase = ''val'', transform = (), dataset = [], partition' = []\<rparr>
           [(''malignant'', [''m1'']), (''benign'', [''b1'', ''b2''])]) c = Inr label)"
proof -
  let ?s = "\<lparr>phase = ''val'', transform = (), dataset = [], partition' = []\<rparr>"
  let ?ds = "[(''malignant'', [''m1'']), (''benign'', [''b1'', ''b2''])]"
  have h1: "(0::int) \<le> 2" by simp
  have h2: "2 < len (set_dataset ?s ?ds)" by (simp add: len_sum)
  from get_class_label_round_trip [OF h1 h2] h1 h2 show ?thesis by blast
qed

lemma sorted_items_nth:
  assumes "j < length ds"
  shows "sort_key fst ds ! j \<in> set ds"
proof -
  from assms have "j < length (sort_key fst ds)" by simp
  then have "sort_key fst ds ! j \<in> set (sort_key fst ds)" by (rule nth_mem)
  then show ?thesis by simp
qed

lemma distinct_sorted_labels:
  assumes "distinct (map fst ds)"
  shows "distinct (map fst (partition' (set_dataset self ds)))"
proof -
  have "mset (map fst (partition' (set_dataset self ds))) = mset (map fst ds)"
    by (simp only: partition_labels mset_map mset_sort)
  from mset_eq_imp_distinct_iff [OF this] assms show ?thesis by simp
qed

text \<open>
  C10. With the distinct keys of a dictionary, every index in range resolves to a label
  that is a key of the mapping and to an offset inside that key's path list, which is
  therefore not empty; so both lookups of \<open>self.dataset[label][index]\<close> in
  \<open>__getitem__\<close> succeed, and \<open>__getitem__\<close> goes on to open that path.
\<close>

theorem get_partitioned_index_in_bounds:
  assumes "distinct (map fst ds)" "0 \<le> i" "i < len (set_dataset self ds)"
  shows "\<exists>label c off paths.
           get_partitioned_index (set_dataset self ds) i = Inr (label, c, off)
         \<and> dict_get (dataset (set_dataset self ds)) label = Inr paths
         \<and> paths \<noteq> [] \<and> 0 \<le> off \<and> off < int (length paths)
         \<and> list_get paths off = Inr (paths ! nat off)
         \<and> getitem open_image apply_transform (set_dataset self ds) i =
             (case open_image (paths ! nat off) of
                Inl e \<Rightarrow> Inl e
              | Inr im \<Rightarrow>
                  (case apply_transform (transform self) im of
                     Inl e \<Rightarrow> Inl e
                   | Inr t \<Rightarrow> Inr (t, c, \<lparr>extra_path = paths ! nat off, extra_label = label,
                                         extra_class_index = c, extra_inclass_index = off\<rparr>)))"
proof -
  let ?S = "set_dataset self ds"
  from resolve_in_range [OF assms(2,3)] obtain k c off
    where r: "get_partitioned_index ?S i = Inr (k, c, off)" by blast
  from resolve_position [OF r] obtain j where
    j: "j < length ds" "fst (sort_key fst ds ! j) = k" "0 \<le> off"
       "off < int (length (snd (sort_key fst ds ! j)))" by blast
  define paths where "paths = snd (sort_key fst ds ! j)"
  have "sort_key fst ds ! j = (k, paths)"
    using j(2) by (cases "sort_key fst ds ! j") (simp add: paths_def)
  with sorted_items_nth [OF j(1)] have "(k, paths) \<in> set ds" by simp
  with assms(1) have m: "map_of ds k = Some paths" by simp
  have d: "dict_get (dataset ?S) k = Inr paths"
    by (simp add: dict_get_def set_dataset_def m)
  have o: "off < int (length paths)" using j(4) by (simp only: paths_def)
  with j(3) have ne: "paths \<noteq> []" by auto
  have lg: "list_get paths off = Inr (paths ! nat off)"
    using j(3) o by (simp add: list_get_def)
  have tr: "transform ?S = transform self" by (simp add: set_dataset_def)
  have g: "getitem open_image apply_transform ?S i =
             (case open_image (paths ! nat off) of
                Inl e \<Rightarrow> Inl e
              | Inr im \<Rightarrow>
                  (case apply_transform (transform self) im of
                     Inl e \<Rightarrow> Inl e
                   | Inr t \<Rightarrow> Inr (t, c, \<lparr>extra_path = paths ! nat off, extra_label = k,
                                         extra_class_index = c, extra_inclass_index = off\<rparr>)))"
    by (simp only: getitem_def r d lg tr sum.case prod.case)
  from r d ne j(3) o lg g show ?thesis by blast
qed

theorem get_partitioned_index_in_bounds_witness:
  "distinct (map fst [(''b'', [''p'']), (''a'', ([]::path list))])
   \<and> (0::int) \<le> 0
   \<and> 0 < len (set_dataset \<lparr>phase = ''val'', transform = (), dataset = [], partition' = []\<rparr>
           [(''b'', [''p'']), (''a'', [])])
   \<and> get_partitioned_index
        (set_dataset \<lparr>phase = ''val'', transform = (), dataset = [], partition' = []\<rparr>
           [(''b'', [''p'']), (''a'', [])]) 0 = Inr (''b'', 1, 0)
   \<and> (\<exists>paths. dict_get (dataset
        (set_dataset \<lparr>phase = ''val'', transform = (), dataset = [], partition' = []\<rparr>
           [(''b'', [''p'']), (''a'', [])])) ''b'' = Inr paths
        \<and> paths \<noteq> [] \<and> list_get paths 0 = Inr (paths ! nat 0))"
proof -
  let ?s = "\<lparr>phase = ''val'', transform = (), dataset = [], partition' = []\<rparr>"
  let ?ds = "[(''b'', [''p'']), (''a'', ([]::path list))]"
  have h1: "distinct (map fst ?ds)" by simp
  have h2: "(0::int) \<le> 0" by simp
  have h3: "0 < len (set_dataset ?s ?ds)" by (simp add: len_sum)
  have r: "get_partitioned_index (set_dataset ?s ?ds) 0 = Inr (''b'', 1, 0)"
    by (simp add: get_partitioned_index_def set_dataset_def)
  from get_partitioned_index_in_bounds [OF h1 h2 h3,
      where open_image = "\<lambda>p. Inr p" and apply_transform = "\<lambda>t im. Inr im"]
  obtain label c off paths where
    "get_partitioned_index (set_dataset ?s ?ds) 0 = Inr (label, c, off)"
    "dict_get (dataset (set_dataset ?s ?ds)) label = Inr paths"
    "paths \<noteq> []" "list_get paths off = Inr (paths ! nat off)"
    by blast
  with r have "dict_get (dataset (set_dataset ?s ?ds)) ''b'' = Inr paths
        \<and> paths \<noteq> [] \<and> list_get paths 0 = Inr (paths ! nat 0)" by simp
  with h1 h2 h3 r show ?thesis by blast
qed

lemma strict_sorted_labels:
  assumes "distinct (map fst ds)"
  shows "sorted_wrt (<) (map fst (partition' (set_dataset self ds)))"
proof -
  have "sorted (map fst (partition' (set_dataset self ds)))"
    by (simp only: partition_labels sorted_sort_key)
  with distinct_sorted_labels [OF assms, of self] show ?thesis
    by (simp only: strict_sorted_iff)
qed

text \<open>
  C1. \<open>__get_partitioned_index\<close> walks the partition table, which lists the labels in
  strictly ascending order: a returned class number is the one position of the returned
  label in that table, the index is the sum of the counts before that position plus the
  returned offset, and the offset is below the count at that position. In the scenario
  of two classes the table and the four results are as stated.
\<close>

theorem get_partitioned_index_sorted_walk:
  "(distinct (map fst ds) \<and> get_partitioned_index (set_dataset self ds) i = Inr (label, c, off) \<longrightarrow>
      sorted_wrt (<) (map fst (partition' (set_dataset self ds)))
      \<and> (\<exists>j < length (partition' (set_dataset self ds)).
            c = int j
          \<and> fst (partition' (set_dataset self ds) ! j) = label
          \<and> (\<forall>j' < length (partition' (set_dataset self ds)).
                fst (partition' (set_dataset self ds) ! j') = label \<longrightarrow> j' = j)
          \<and> i = sum_list (map snd (take j (partition' (set_dataset self ds)))) + off
          \<and> 0 \<le> off \<and> off < snd (partition' (set_dataset self ds) ! j)))
   \<and> partition' (set_dataset self [(''benign'', [b1, b2]), (''malignant'', [m1])]) =
        [(''benign'', 2), (''malignant'', 1)]
   \<and> get_partitioned_index (set_dataset self [(''benign'', [b1, b2]), (''malignant'', [m1])]) 0 =
        Inr (''benign'', 0, 0)
   \<and> get_partitioned_index (set_dataset self [(''benign'', [b1, b2]), (''malignant'', [m1])]) 1 =
        Inr (''benign'', 0, 1)
   \<and> get_partitioned_index (set_dataset self [(''benign'', [b1, b2]), (''malignant'', [m1])]) 2 =
        Inr (''malignant'', 1, 0)
   \<and> get_partitioned_index (set_dataset self [(''benign'', [b1, b2]), (''malignant'', [m1])]) 3 =
        Inl (IndexError, [Lit ''Index is out of range '', Num 0])"
proof -
  let ?S = "set_dataset self ds"
  let ?pt = "partition' ?S"
  have general: "sorted_wrt (<) (map fst ?pt)
      \<and> (\<exists>j < length ?pt. c = int j \<and> fst (?pt ! j) = label
          \<and> (\<forall>j' < length ?pt. fst (?pt ! j') = label \<longrightarrow> j' = j)
          \<and> i = sum_list (map snd (take j ?pt)) + off
          \<and> 0 \<le> off \<and> off < snd (?pt ! j))"
    if d: "distinct (map fst ds)" and r: "get_partitioned_index ?S i = Inr (label, c, off)"
  proof -
    from resolve_partition [OF r] obtain j where
      j: "j < length ds" "c = int j" "fst (?pt ! j) = label"
         "i = sum_list (map snd (take j ?pt)) + off" "0 \<le> off" "off < snd (?pt ! j)"
      by blast
    from j(1) have jl: "j < length ?pt" by (simp only: length_partition)
    have uniq: "j' = j" if "j' < length ?pt" "fst (?pt ! j') = label" for j'
    proof -
      from that jl j(3) have e: "map fst ?pt ! j' = map fst ?pt ! j" by simp
      from that(1) have a: "j' < length (map fst ?pt)" by simp
      from jl have b: "j < length (map fst ?pt)" by simp
      from nth_eq_iff_index_eq [OF distinct_sorted_labels [OF d, of self] a b] e
      show ?thesis by blast
    qed
    from strict_sorted_labels [OF d, of self] jl j(2-6) uniq show ?thesis by blast
  qed
  let ?E = "set_dataset self [(''benign'', [b1, b2]), (''malignant'', [m1])]"
  have p: "partition' ?E = [(''benign'', 2), (''malignant'', 1)]"
    by (simp add: set_dataset_def)
  have r0: "get_partitioned_index ?E 0 = Inr (''benign'', 0, 0)"
    by (simp add: get_partitioned_index_def p)
  have r1: "get_partitioned_index ?E 1 = Inr (''benign'', 0, 1)"
    by (simp add: get_partitioned_index_def p)
  have r2: "get_partitioned_index ?E 2 = Inr (''malignant'', 1, 0)"
    by (simp add: get_partitioned_index_def p)
  have r3: "get_partitioned_index ?E 3 = Inl (IndexError, [Lit ''Index is out of range '', Num 0])"
    by (simp add: get_partitioned_index_def p)
  from general p r0 r1 r2 r3 show ?thesis by blast
qed

theorem get_partitioned_index_sorted_walk_witness:
  "distinct (map fst [(''malignant'', [''m1'']), (''benign'', [''b1'', ''b2''])])
   \<and> get_partitioned_index
        (set_dataset \<lparr>phase = ''val'', transform = (), dataset = [], partition' = []\<rparr>
           [(''malignant'', [''m1'']), (''benign'', [''b1'', ''b2''])]) 2 = Inr (''malignant'', 1, 0)
   \<and> sorted_wrt (<) (map fst (partition'
        (set_dataset \<lparr>phase = ''val'', transform = (), dataset = [], partition' = []\<rparr>
           [(''malignant'', [''m1'']), (''benign'', [''b1'', ''b2''])])))
   \<and> fst (partition'
        (set_dataset \<lparr>phase = ''val'', transform = (), dataset = [], partition' = []\<rparr>
           [(''malignant'', [''m1'']), (''benign'', [''b1'', ''b2''])]) ! 1) = ''malignant''
   \<and> (2::int) = sum_list (map snd (take 1 (partition'
        (set_dataset \<lparr>phase = ''val'', transform = (), dataset = [], partition' = []\<rparr>
           [(''malignant'', [''m1'']), (''benign'', [''b1'', ''b2''])])))) + 0"
proof -
  let ?s = "\<lparr>phase = ''val'', transform = (), dataset = [], partition' = []\<rparr>"
  let ?ds = "[(''malignant'', [''m1'']), (''benign'', [''b1'', ''b2''])]"
  let ?pt = "partition' (set_dataset ?s ?ds)"
  have h1: "distinct (map fst ?ds)" by simp
  have p: "?pt = [(''benign'', 2), (''malignant'', 1)]"
    by (simp add: set_dataset_def)
  have r: "get_partitioned_index (set_dataset ?s ?ds) 2 = Inr (''malignant'', 1, 0)"
    by (simp add: get_partitioned_index_def p)
  from get_partitioned_index_sorted_walk [of ?ds ?s 2 "''malignant''" 1 0 "''b1''" "''b2''" "''m1''"] h1 r
  have s: "sorted_wrt (<) (map fst ?pt)"
    and "\<exists>j < length ?pt. (1::int) = int j \<and> fst (?pt ! j) = ''malignant''
          \<and> (2::int) = sum_list (map snd (take j ?pt)) + 0"
    by blast+
  then obtain j where "(1::int) = int j" "fst (?pt ! j) = ''malignant''"
      "(2::int) = sum_list (map snd (take j ?pt)) + 0" by blast
  moreover from this(1) have "j = 1" by simp
  ultimately have "fst (?pt ! 1) = ''malignant''" "(2::int) = sum_list (map snd (take 1 ?pt)) + 0"
    by simp_all
  with h1 r s show ?thesis by blast
qed

section \<open>Properties of the transformation pipe\<close>

lemma map_of_transform_dict:
  "map_of (transform_dict enlarge target_size) phase' = None \<longleftrightarrow>
     phase' \<notin> {''train'', ''val'', ''test''}"
  by (simp add: transform_dict_def Let_def)

lemma get_transform_enlarged:
  assumes "enlarge_dim (fst target_size) = Inr width" "enlarge_dim (snd target_size) = Inr height"
  shows "get_transform enlarge_dim target_size phase' =
           (case map_of (transform_dict (Resize (width, height)) target_size) phase' of
              Some t \<Rightarrow> Inr t
            | None \<Rightarrow> Inl (Exception, [Lit ''Unknown pharse specified'']))"
  by (simp only: get_transform_def assms sum.case)

text \<open>
  C9, where both enlarged dimensions can be computed. \<open>get_transform\<close> raises (an
  \<open>Exception\<close>, with the message of the source) for every phase other than train, val
  and test, and returns a transform for these three.
\<close>

theorem get_transform_phase:
  "enlarge_dim (fst target_size) = Inr width \<and> enlarge_dim (snd target_size) = Inr height \<longrightarrow>
     (phase' \<notin> {''train'', ''val'', ''test''} \<longrightarrow>
        get_transform enlarge_dim target_size phase' =
          Inl (Exception, [Lit ''Unknown pharse specified'']))
     \<and> (phase' \<in> {''train'', ''val'', ''test''} \<longrightarrow>
        (\<exists>t. get_transform enlarge_dim target_size phase' = Inr t))"
proof (intro conjI impI)
  assume e: "enlarge_dim (fst target_size) = Inr width \<and> enlarge_dim (snd target_size) = Inr height"
  assume "phase' \<notin> {''train'', ''val'', ''test''}"
  then have "map_of (transform_dict (Resize (width, height)) target_size) phase' = None"
    by (rule iffD2 [OF map_of_transform_dict])
  with e show "get_transform enlarge_dim target_size phase' =
        Inl (Exception, [Lit ''Unknown pharse specified''])"
    by (simp add: get_transform_enlarged)
next
  assume e: "enlarge_dim (fst target_size) = Inr width \<and> enlarge_dim (snd target_size) = Inr height"
  assume "phase' \<in> {''train'', ''val'', ''test''}"
  then have "map_of (transform_dict (Resize (width, height)) target_size) phase' \<noteq> None"
    using map_of_transform_dict [of "Resize (width, height)" target_size phase'] by blast
  with e show "\<exists>t. get_transform enlarge_dim target_size phase' = Inr t"
    by (auto simp add: get_transform_enlarged)
qed

theorem get_transform_phase_witness:
  "(\<lambda>n. Inr (n * 11 div 10)) (fst (100::int, 100::int)) = (Inr 110 :: error + int)
   \<and> (\<lambda>n. Inr (n * 11 div 10)) (snd (100::int, 100::int)) = (Inr 110 :: error + int)
   \<and> ''custom'' \<notin> {''train'', ''val'', ''test''}
   \<and> get_transform (\<lambda>n. Inr (n * 11 div 10)) (100, 100) ''custom'' =
        Inl (Exception, [Lit ''Unknown pharse specified''])
   \<and> ''val'' \<in> {''train'', ''val'', ''test''}
   \<and> (\<exists>t. get_transform (\<lambda>n. Inr (n * 11 div 10)) (100, 100) ''val'' = Inr t)"
proof -
  have e1: "(\<lambda>n. Inr (n * 11 div 10)) (fst (100::int, 100::int)) = (Inr 110 :: error + int)"
    by simp
  have e2: "(\<lambda>n. Inr (n * 11 div 10)) (snd (100::int, 100::int)) = (Inr 110 :: error + int)"
    by simp
  have h1: "''custom'' \<notin> {''train'', ''val'', ''test''}" by simp
  have h2: "''val'' \<in> {''train'', ''val'', ''test''}" by simp
  note c = get_transform_phase [of "\<lambda>n. Inr (n * 11 div 10)" "(100, 100)" 110 110 "''custom''",
      THEN mp, OF conjI [OF e1 e2], THEN conjunct1, THEN mp, OF h1]
  note v = get_transform_phase [of "\<lambda>n. Inr (n * 11 div 10)" "(100, 100)" 110 110 "''val''",
      THEN mp, OF conjI [OF e1 e2], THEN conjunct2, THEN mp, OF h2]
  show ?thesis
    by (rule conjI [OF e1 conjI [OF e2 conjI [OF h1 conjI [OF c conjI [OF h2 v]]]]])
qed

lemma two_1024_le_ten_400: "(2::int) ^ 1024 \<le> 10 ^ 400"
proof -
  have "(2::int) ^ 1024 \<le> 2 ^ (3 * 400)" by (rule power_increasing) simp_all
  also have "\<dots> = (2 ^ 3) ^ 400" by (rule power_mult)
  also have "\<dots> \<le> 10 ^ 400" by (rule power_mono) simp_all
  finally show ?thesis .
qed

text \<open>
  C9, as stated, fails for a target size whose enlarged dimension cannot be computed:
  with a width of \<open>10 ^ 400\<close>, where the floating-point product raises \<open>OverflowError\<close>,
  \<open>get_transform\<close> raises that error for the phase val, where it should return a
  transform, and for an unknown phase, where it should raise the phase error.
\<close>

theorem get_transform_phase_counterexample:
  "get_transform
     (\<lambda>n. if 2 ^ 1024 \<le> n then Inl (OverflowError, [Lit ''int too large to convert to float''])
          else Inr (n * 11 div 10))
     (10 ^ 400, 1) ''val'' =
     Inl (OverflowError, [Lit ''int too large to convert to float''])
   \<and> get_transform
     (\<lambda>n. if 2 ^ 1024 \<le> n then Inl (OverflowError, [Lit ''int too large to convert to float''])
          else Inr (n * 11 div 10))
     (10 ^ 400, 1) ''custom'' =
     Inl (OverflowError, [Lit ''int too large to convert to float''])"
  by (simp only: get_transform_def fst_conv two_1024_le_ten_400 if_True sum.case simp_thms)

text \<open>
  C8, as the code has it. Where both enlarged dimensions can be computed, the train
  pipe is, in this order: the resize to the enlarged size, the random rotation (45
  degrees, bilinear, expanded output), the centre crop to the target size, the
  horizontal flip with probability 0.5, the random perspective with scale 0.2, the
  colour jitter (brightness 0.126, contrast 0.2) applied with probability 0.5, the
  conversion to a tensor and the normalisation. The flip, the perspective and the
  jitter come after the centre crop.
\<close>

theorem get_transform_train:
  "enlarge_dim (fst target_size) = Inr width \<and> enlarge_dim (snd target_size) = Inr height \<longrightarrow>
   get_transform enlarge_dim target_size ''train'' =
     Inr (Compose
       [Resize (width, height),
        RandomRotation 45 BILINEAR True,
        CenterCrop target_size,
        RandomHorizontalFlip 0.5,
        RandomPerspective 0.2,
        RandomApply [ColorJitter 0.126 0.2] 0.5,
        ToTensor,
        Normalize [0.485, 0.456, 0.406] [0.229, 0.224, 0.225]])"
proof
  assume "enlarge_dim (fst target_size) = Inr width \<and> enlarge_dim (snd target_size) = Inr height"
  then have "get_transform enlarge_dim target_size ''train'' =
      (case map_of (transform_dict (Resize (width, height)) target_size) ''train'' of
              Some t \<Rightarrow> Inr t
            | None \<Rightarrow> Inl (Exception, [Lit ''Unknown pharse specified'']))"
    by (simp add: get_transform_enlarged)
  then show "get_transform enlarge_dim target_size ''train'' =
     Inr (Compose
       [Resize (width, height),
        RandomRotation 45 BILINEAR True,
        CenterCrop target_size,
        RandomHorizontalFlip 0.5,
        RandomPerspective 0.2,
        RandomApply [ColorJitter 0.126 0.2] 0.5,
        ToTensor,
        Normalize [0.485, 0.456, 0.406] [0.229, 0.224, 0.225]])"
    by (simp add: transform_dict_def Let_def imagenet_mean_def imagenet_std_def)
qed

theorem get_transform_train_witness:
  "(\<lambda>n. Inr (n * 11 div 10)) (fst (100::int, 100::int)) = (Inr 110 :: error + int)
   \<and> (\<lambda>n. Inr (n * 11 div 10)) (snd (100::int, 100::int)) = (Inr 110 :: error + int)
   \<and> get_transform (\<lambda>n. Inr (n * 11 div 10)) (100, 100) ''train'' =
     Inr (Compose
       [Resize (110, 110),
        RandomRotation 45 BILINEAR True,
        CenterCrop (100, 100),
        RandomHorizontalFlip 0.5,
        RandomPerspective 0.2,
        RandomApply [ColorJitter 0.126 0.2] 0.5,
        ToTensor,
        Normalize [0.485, 0.456, 0.406] [0.229, 0.224, 0.225]])"
proof -
  have e1: "(\<lambda>n. Inr (n * 11 div 10)) (fst (100::int, 100::int)) = (Inr 110 :: error + int)"
    by simp
  have e2: "(\<lambda>n. Inr (n * 11 div 10)) (snd (100::int, 100::int)) = (Inr 110 :: error + int)"
    by simp
  note t = get_transform_train [of "\<lambda>n. Inr (n * 11 div 10)" "(100, 100)" 110 110,
      THEN mp, OF conjI [OF e1 e2]]
  show ?thesis by (rule conjI [OF e1 conjI [OF e2 t]])
qed

text \<open>
  C8, as stated, fails: for the target size (100, 100) the train pipe is not the resize,
  the four random stages, and then the centre crop, tensor conversion and normalisation;
  the stages between the resize and the centre crop are the rotation alone.
\<close>

theorem get_transform_train_counterexample:
  "get_transform (\<lambda>n. Inr (n * 11 div 10)) (100, 100) ''train'' \<noteq>
     Inr (Compose
       [Resize (110, 110),
        RandomRotation 45 BILINEAR True,
        RandomHorizontalFlip 0.5,
        RandomPerspective 0.2,
        RandomApply [ColorJitter 0.126 0.2] 0.5,
        CenterCrop (100, 100),
        ToTensor,
        Normalize [0.485, 0.456, 0.406] [0.229, 0.224, 0.225]])
   \<and> (case get_transform (\<lambda>n. Inr (n * 11 div 10)) (100, 100) ''train'' of
        Inr (Compose stages) \<Rightarrow>
          takeWhile (\<lambda>t. t \<noteq> CenterCrop (100, 100)) (tl stages) = [RandomRotation 45 BILINEAR True]
      | _ \<Rightarrow> False)"
  by (simp add: get_transform_def transform_dict_def Let_def)

section \<open>Properties of the split\<close>

lemma update_fresh: "k \<notin> fst ` set al \<Longrightarrow> AList.update k v al = al @ [(k, v)]"
  by (induction al) auto

lemma fold_update_fresh:
  "distinct ks \<Longrightarrow> set ks \<inter> fst ` set acc = {} \<Longrightarrow>
   fold (\<lambda>k. AList.update k (f k)) ks acc = acc @ map (\<lambda>k. (k, f k)) ks"
proof (induction ks arbitrary: acc)
  case Nil
  then show ?case by simp
next
  case (Cons k ks)
  from Cons.prems have fresh: "k \<notin> fst ` set acc" by auto
  from Cons.prems fresh have "set ks \<inter> fst ` set (acc @ [(k, f k)]) = {}" by auto
  with Cons.IH [of "acc @ [(k, f k)]"] Cons.prems(1)
  have "fold (\<lambda>k. AList.update k (f k)) ks (acc @ [(k, f k)]) =
          (acc @ [(k, f k)]) @ map (\<lambda>k. (k, f k)) ks" by simp
  then show ?case by (simp add: update_fresh [OF fresh])
qed

lemma map_keys_items:
  assumes "distinct (map fst ds)"
  shows "map (\<lambda>k. (k, g (the (map_of ds k)))) (map fst ds) = map (\<lambda>(k, ps). (k, g ps)) ds"
proof -
  have "(fst x, g (the (map_of ds (fst x)))) = (case x of (k, ps) \<Rightarrow> (k, g ps))"
    if "x \<in> set ds" for x
  proof -
    obtain k ps where x: "x = (k, ps)" by (cases x)
    with that assms have "map_of ds k = Some ps" by simp
    with x show ?thesis by simp
  qed
  then show ?thesis by (simp add: comp_def)
qed

lemma build_dataset_loop_distinct:
  "build_dataset_loop path_join glob datasource root' ext keys acc = Inr datasets \<Longrightarrow>
   distinct (map fst acc) \<Longrightarrow> distinct (map fst datasets)"
proof (induction keys arbitrary: acc)
  case Nil
  then show ?case by simp
next
  case (Cons key keys)
  from Cons.prems(1) obtain dir where
    "build_dataset_loop path_join glob datasource root' ext keys
       (AList.update key (glob (path_join root' dir ext)) acc) = Inr datasets"
    by (auto split: sum.splits)
  moreover from Cons.prems(2)
  have "distinct (map fst (AList.update key (glob (path_join root' dir ext)) acc))"
    by (rule distinct_update)
  ultimately show ?case by (rule Cons.IH)
qed

lemma build_dataset_distinct:
  "build_dataset path_join glob datasource root' ext = Inr datasets \<Longrightarrow> distinct (map fst datasets)"
  unfolding build_dataset_def by (erule build_dataset_loop_distinct) simp

lemma slice_from_nonneg: "0 \<le> v \<Longrightarrow> slice_from xs v = drop (nat v) xs"
  by (simp add: slice_from_def Let_def min_def)

lemma slice_upto_nonneg: "0 \<le> v \<Longrightarrow> slice_upto xs v = take (nat v) xs"
  by (simp add: slice_upto_def Let_def min_def)

lemma split_loop_assert:
  assumes "map_of datasets key = Some paths" "int (length paths) \<le> v"
  shows "split_loop datasets v (key # keys) vars =
           Inl (AssertionError, size_message key (int (length paths)) v)"
  using assms by (simp add: dict_get_def Let_def)

lemma split_loop_step:
  assumes "map_of datasets key = Some paths" "v < int (length paths)" "0 \<le> v"
  shows "split_loop datasets v (key # keys) vars =
           split_loop datasets v keys
             (vars\<lparr>training_set := AList.update key (drop (nat v) paths) (training_set vars),
                   validation_set := AList.update key (take (nat v) paths) (validation_set vars),
                   total_training_set := total_training_set vars + int (length (drop (nat v) paths)),
                   total_validation_set := total_validation_set vars + int (length (take (nat v) paths)),
                   total_dataset := total_dataset vars + int (length paths)\<rparr>)"
proof -
  from assms(2,3) have "paths \<noteq> []" by auto
  with assms show ?thesis
    by (simp add: dict_get_def Let_def slice_from_nonneg slice_upto_nonneg del: length_drop length_take)
qed

lemma split_loop_ok:
  assumes "0 \<le> v"
    and "\<forall>k \<in> set keys. \<exists>ps. map_of datasets k = Some ps \<and> v < int (length ps)"
  shows "\<exists>vars'. split_loop datasets v keys vars = Inr vars'
           \<and> training_set vars' =
               fold (\<lambda>k. AList.update k (drop (nat v) (the (map_of datasets k)))) keys (training_set vars)
           \<and> validation_set vars' =
               fold (\<lambda>k. AList.update k (take (nat v) (the (map_of datasets k)))) keys (validation_set vars)"
  using assms(2)
proof (induction keys arbitrary: vars)
  case Nil
  then show ?case by simp
next
  case (Cons key keys)
  from Cons.prems obtain ps where ps: "map_of datasets key = Some ps" "v < int (length ps)"
    by auto
  from Cons.prems have rest: "\<forall>k \<in> set keys. \<exists>ps. map_of datasets k = Some ps \<and> v < int (length ps)"
    by simp
  let ?vars = "vars\<lparr>training_set := AList.update key (drop (nat v) ps) (training_set vars),
                   validation_set := AList.update key (take (nat v) ps) (validation_set vars),
                   total_training_set := total_training_set vars + int (length (drop (nat v) ps)),
                   total_validation_set := total_validation_set vars + int (length (take (nat v) ps)),
                   total_dataset := total_dataset vars + int (length ps)\<rparr>"
  from Cons.IH [OF rest, of ?vars] obtain vars' where
    v': "split_loop datasets v keys ?vars = Inr vars'"
      "training_set vars' =
         fold (\<lambda>k. AList.update k (drop (nat v) (the (map_of datasets k)))) keys (training_set ?vars)"
      "validation_set vars' =
         fold (\<lambda>k. AList.update k (take (nat v) (the (map_of datasets k)))) keys (validation_set ?vars)"
    by blast
  have "split_loop datasets v (key # keys) vars = Inr vars'"
    by (simp only: split_loop_step [OF ps assms(1)] v'(1))
  moreover have "training_set vars' =
      fold (\<lambda>k. AList.update k (drop (nat v) (the (map_of datasets k)))) (key # keys) (training_set vars)"
    using v'(2) ps(1) by simp
  moreover have "validation_set vars' =
      fold (\<lambda>k. AList.update k (take (nat v) (the (map_of datasets k)))) (key # keys) (validation_set vars)"
    using v'(3) ps(1) by simp
  ultimately show ?case by blast
qed

lemma split_loop_fails:
  assumes "\<forall>k \<in> set keys. \<exists>ps. map_of datasets k = Some ps"
    and "\<exists>k \<in> set keys. \<exists>ps. map_of datasets k = Some ps \<and> int (length ps) \<le> v"
  shows "\<exists>k \<in> set keys. \<exists>ps. map_of datasets k = Some ps \<and> int (length ps) \<le> v
           \<and> split_loop datasets v keys vars =
               Inl (AssertionError, size_message k (int (length ps)) v)"
  using assms
proof (induction keys arbitrary: vars)
  case Nil
  then show ?case by simp
next
  case (Cons key keys)
  from Cons.prems(1) obtain ps where ps: "map_of datasets key = Some ps" by auto
  from Cons.prems(2) have nonneg: "0 \<le> v" by force
  show ?case
  proof (cases "int (length ps) \<le> v")
    case True
    from split_loop_assert [OF ps True] ps True show ?thesis by auto
  next
    case False
    then have lt: "v < int (length ps)" by simp
    with ps Cons.prems(2)
    have bad: "\<exists>k \<in> set keys. \<exists>ps. map_of datasets k = Some ps \<and> int (length ps) \<le> v"
      by auto
    from Cons.prems(1) have dom: "\<forall>k \<in> set keys. \<exists>ps. map_of datasets k = Some ps" by simp
    let ?vars = "vars\<lparr>training_set := AList.update key (drop (nat v) ps) (training_set vars),
                   validation_set := AList.update key (take (nat v) ps) (validation_set vars),
                   total_training_set := total_training_set vars + int (length (drop (nat v) ps)),
                   total_validation_set := total_validation_set vars + int (length (take (nat v) ps)),
                   total_dataset := total_dataset vars + int (length ps)\<rparr>"
    from Cons.IH [OF dom bad, of ?vars] obtain k ps' where
      k: "k \<in> set keys" "map_of datasets k = Some ps'" "int (length ps') \<le> v"
         "split_loop datasets v keys ?vars = Inl (AssertionError, size_message k (int (length ps')) v)"
      by blast
    have "split_loop datasets v (key # keys) vars =
            Inl (AssertionError, size_message k (int (length ps')) v)"
      by (simp only: split_loop_step [OF ps lt nonneg] k(4))
    with k(1-3) show ?thesis by auto
  qed
qed

lemma items_lookup:
  "distinct (map fst ds) \<Longrightarrow> kp \<in> set ds \<Longrightarrow> map_of ds (fst kp) = Some (snd kp)"
  by (cases kp) simp

lemma split_all_classes:
  assumes d: "distinct (map fst datasets)" and v: "0 \<le> v"
    and big: "\<forall>kp \<in> set datasets. v < int (length (snd kp))"
  shows "\<exists>vars'. split_loop datasets v (map fst datasets)
            \<lparr>training_set = [], validation_set = [], total_training_set = 0,
             total_validation_set = 0, total_dataset = 0\<rparr> = Inr vars'
         \<and> training_set vars' = map (\<lambda>(k, ps). (k, drop (nat v) ps)) datasets
         \<and> validation_set vars' = map (\<lambda>(k, ps). (k, take (nat v) ps)) datasets"
proof -
  let ?init = "\<lparr>training_set = [], validation_set = [], total_training_set = 0,
             total_validation_set = 0, total_dataset = 0\<rparr>"
  have keys: "\<forall>k \<in> set (map fst datasets). \<exists>ps. map_of datasets k = Some ps \<and> v < int (length ps)"
  proof
    fix k assume "k \<in> set (map fst datasets)"
    then obtain kp where kp: "kp \<in> set datasets" "k = fst kp" by auto
    from items_lookup [OF d kp(1)] big kp
    show "\<exists>ps. map_of datasets k = Some ps \<and> v < int (length ps)" by auto
  qed
  from split_loop_ok [OF v keys, of ?init] obtain vars' where
    r: "split_loop datasets v (map fst datasets) ?init = Inr vars'"
    and t: "training_set vars' =
      fold (\<lambda>k. AList.update k (drop (nat v) (the (map_of datasets k)))) (map fst datasets) []"
    and va: "validation_set vars' =
      fold (\<lambda>k. AList.update k (take (nat v) (the (map_of datasets k)))) (map fst datasets) []"
    by auto
  have fresh: "set (map fst datasets) \<inter> fst ` set ([]::path list pydict) = {}" by simp
  have "training_set vars' = map (\<lambda>(k, ps). (k, drop (nat v) ps)) datasets"
    by (simp only: t fold_update_fresh [OF d fresh] append_Nil map_keys_items [OF d])
  moreover have "validation_set vars' = map (\<lambda>(k, ps). (k, take (nat v) ps)) datasets"
    by (simp only: va fold_update_fresh [OF d fresh] append_Nil map_keys_items [OF d])
  ultimately show ?thesis using r by blast
qed

lemma split_some_class_small:
  assumes d: "distinct (map fst datasets)"
    and bad: "(k, ps) \<in> set datasets" "int (length ps) \<le> v"
  shows "\<exists>k' ps'. (k', ps') \<in> set datasets \<and> int (length ps') \<le> v
         \<and> split_loop datasets v (map fst datasets) vars =
             Inl (AssertionError, size_message k' (int (length ps')) v)"
proof -
  have dom: "\<forall>k \<in> set (map fst datasets). \<exists>ps. map_of datasets k = Some ps"
  proof
    fix k assume "k \<in> set (map fst datasets)"
    then obtain kp where kp: "kp \<in> set datasets" "k = fst kp" by auto
    from items_lookup [OF d kp(1)] kp(2) show "\<exists>ps. map_of datasets k = Some ps" by auto
  qed
  from d bad(1) have "map_of datasets k = Some ps" by simp
  with bad have ex: "\<exists>k \<in> set (map fst datasets). \<exists>ps. map_of datasets k = Some ps \<and> int (length ps) \<le> v"
    by force
  from split_loop_fails [OF dom ex, of vars] obtain k' ps' where
    "map_of datasets k' = Some ps'" "int (length ps') \<le> v"
    "split_loop datasets v (map fst datasets) vars =
       Inl (AssertionError, size_message k' (int (length ps')) v)"
    by blast
  moreover from this(1) have "(k', ps') \<in> set datasets" by (rule map_of_SomeD)
  ultimately show ?thesis by blast
qed

text \<open>
  C5. When some class has no more paths than \<open>val_size\<close>, \<open>build_train_validation_set\<close>
  raises the \<open>AssertionError\<close> whose message names a class with that few paths, its size
  and \<open>val_size\<close>; nothing is clamped. With two paths and \<open>val_size\<close> 2 it raises.
\<close>

theorem build_train_validation_set_too_small:
  "(build_dataset path_join glob datasource root' ext = Inr datasets
      \<and> (k, ps) \<in> set datasets \<and> int (length ps) \<le> val_size \<longrightarrow>
      (\<exists>k' ps'. (k', ps') \<in> set datasets \<and> int (length ps') \<le> val_size
         \<and> build_train_validation_set path_join glob datasource val_size root' ext =
             Inl (AssertionError, size_message k' (int (length ps')) val_size)))
   \<and> build_train_validation_set path_join (\<lambda>pattern. [p1, p2]) [(''a'', dir)] 2 root' ext =
        Inl (AssertionError, size_message ''a'' 2 2)"
proof -
  have general: "\<exists>k' ps'. (k', ps') \<in> set datasets \<and> int (length ps') \<le> val_size
         \<and> build_train_validation_set path_join glob datasource val_size root' ext =
             Inl (AssertionError, size_message k' (int (length ps')) val_size)"
    if b: "build_dataset path_join glob datasource root' ext = Inr datasets"
      and bad: "(k, ps) \<in> set datasets" "int (length ps) \<le> val_size"
  proof -
    from split_some_class_small [OF build_dataset_distinct [OF b] bad]
    obtain k' ps' where
      k': "(k', ps') \<in> set datasets" "int (length ps') \<le> val_size"
        "split_loop datasets val_size (map fst datasets)
            \<lparr>training_set = [], validation_set = [], total_training_set = 0,
             total_validation_set = 0, total_dataset = 0\<rparr> =
          Inl (AssertionError, size_message k' (int (length ps')) val_size)"
      by blast
    have "build_train_validation_set path_join glob datasource val_size root' ext =
             Inl (AssertionError, size_message k' (int (length ps')) val_size)"
      by (simp only: build_train_validation_set_def b k'(3) sum.case)
    with k'(1,2) show ?thesis by blast
  qed
  have example: "build_train_validation_set path_join (\<lambda>pattern. [p1, p2]) [(''a'', dir)] 2 root' ext =
        Inl (AssertionError, size_message ''a'' 2 2)"
    by (simp add: build_train_validation_set_def build_dataset_def dict_get_def)
  from general example show ?thesis by blast
qed

theorem build_train_validation_set_too_small_witness:
  "build_dataset (\<lambda>r d e. d) (\<lambda>p. if p = ''d1'' then [''p1'', ''p2'', ''p3''] else [''p4''])
      [(''a'', ''d1''), (''b'', ''d2'')] '''' ''*.png'' =
      Inr [(''a'', [''p1'', ''p2'', ''p3'']), (''b'', [''p4''])]
   \<and> (''b'', [''p4'']) \<in> set [(''a'', [''p1'', ''p2'', ''p3'']), (''b'', [''p4''])]
   \<and> int (length [''p4'']) \<le> 2
   \<and> build_train_validation_set (\<lambda>r d e. d)
        (\<lambda>p. if p = ''d1'' then [''p1'', ''p2'', ''p3''] else [''p4''])
        [(''a'', ''d1''), (''b'', ''d2'')] 2 '''' ''*.png'' =
      Inl (AssertionError, size_message ''b'' 1 2)"
proof -
  let ?glob = "\<lambda>p. if p = ''d1'' then [''p1'', ''p2'', ''p3''] else [''p4'']"
  let ?src = "[(''a'', ''d1''), (''b'', ''d2'')]"
  let ?ds = "[(''a'', [''p1'', ''p2'', ''p3'']), (''b'', [''p4''])]"
  have h1: "build_dataset (\<lambda>r d e. d) ?glob ?src '''' ''*.png'' = Inr ?ds"
    by (simp add: build_dataset_def dict_get_def)
  have h2: "(''b'', [''p4'']) \<in> set ?ds" by simp
  have h3: "int (length [''p4'']) \<le> 2" by simp
  from build_train_validation_set_too_small
    [of "\<lambda>r d e. d" ?glob ?src "''''" "''*.png''" ?ds "''b''" "[''p4'']" 2] h1 h2 h3
  obtain k' ps' where
    k': "(k', ps') \<in> set ?ds" "int (length ps') \<le> 2"
      "build_train_validation_set (\<lambda>r d e. d) ?glob ?src 2 '''' ''*.png'' =
         Inl (AssertionError, size_message k' (int (length ps')) 2)"
    by blast
  from k'(1,2) have "k' = ''b'' \<and> ps' = [''p4'']" by auto
  with k'(3) have "build_train_validation_set (\<lambda>r d e. d) ?glob ?src 2 '''' ''*.png'' =
         Inl (AssertionError, size_message ''b'' 1 2)" by simp
  with h1 h2 h3 show ?thesis by blast
qed

text \<open>
  C6, for a \<open>val_size\<close> that is not negative. When every class has more than \<open>val_size\<close>
  paths, \<open>build_train_validation_set\<close> returns, for every class in the order of the
  collected mapping, the paths after the first \<open>val_size\<close> as the training list and the
  first \<open>val_size\<close> paths as the validation list; the validation list has \<open>val_size\<close>
  paths, and followed by the training list it is the class's list. Five paths and
  \<open>val_size\<close> 2 give the stated split.
\<close>

theorem build_train_validation_set_split:
  "(build_dataset path_join glob datasource root' ext = Inr datasets
      \<and> 0 \<le> val_size \<and> (\<forall>kp \<in> set datasets. val_size < int (length (snd kp))) \<longrightarrow>
      build_train_validation_set path_join glob datasource val_size root' ext =
        Inr (map (\<lambda>(k, ps). (k, drop (nat val_size) ps)) datasets,
             map (\<lambda>(k, ps). (k, take (nat val_size) ps)) datasets)
      \<and> (\<forall>kp \<in> set datasets.
            length (take (nat val_size) (snd kp)) = nat val_size
          \<and> take (nat val_size) (snd kp) @ drop (nat val_size) (snd kp) = snd kp))
   \<and> build_train_validation_set path_join (\<lambda>pattern. [p1, p2, p3, p4, p5]) [(''a'', dir)] 2 root' ext =
        Inr ([(''a'', [p3, p4, p5])], [(''a'', [p1, p2])])"
proof -
  have general: "build_train_validation_set path_join glob datasource val_size root' ext =
        Inr (map (\<lambda>(k, ps). (k, drop (nat val_size) ps)) datasets,
             map (\<lambda>(k, ps). (k, take (nat val_size) ps)) datasets)
      \<and> (\<forall>kp \<in> set datasets.
            length (take (nat val_size) (snd kp)) = nat val_size
          \<and> take (nat val_size) (snd kp) @ drop (nat val_size) (snd kp) = snd kp)"
    if b: "build_dataset path_join glob datasource root' ext = Inr datasets"
      and v: "0 \<le> val_size"
      and big: "\<forall>kp \<in> set datasets. val_size < int (length (snd kp))"
  proof -
    from split_all_classes [OF build_dataset_distinct [OF b] v big] obtain vars' where
      r: "split_loop datasets val_size (map fst datasets)
            \<lparr>training_set = [], validation_set = [], total_training_set = 0,
             total_validation_set = 0, total_dataset = 0\<rparr> = Inr vars'"
      and t: "training_set vars' = map (\<lambda>(k, ps). (k, drop (nat val_size) ps)) datasets"
      and va: "validation_set vars' = map (\<lambda>(k, ps). (k, take (nat val_size) ps)) datasets"
      by blast
    have "build_train_validation_set path_join glob datasource val_size root' ext =
        Inr (map (\<lambda>(k, ps). (k, drop (nat val_size) ps)) datasets,
             map (\<lambda>(k, ps). (k, take (nat val_size) ps)) datasets)"
      by (simp only: build_train_validation_set_def b r sum.case t va)
    moreover have "\<forall>kp \<in> set datasets.
            length (take (nat val_size) (snd kp)) = nat val_size
          \<and> take (nat val_size) (snd kp) @ drop (nat val_size) (snd kp) = snd kp"
      using big v by auto
    ultimately show ?thesis by blast
  qed
  have example: "build_train_validation_set path_join (\<lambda>pattern. [p1, p2, p3, p4, p5])
        [(''a'', dir)] 2 root' ext = Inr ([(''a'', [p3, p4, p5])], [(''a'', [p1, p2])])"
    by (simp add: build_train_validation_set_def build_dataset_def dict_get_def
        slice_from_nonneg slice_upto_nonneg)
  from general example show ?thesis by blast
qed

theorem build_train_validation_set_split_witness:
  "build_dataset (\<lambda>r d e. d)
      (\<lambda>p. if p = ''d1'' then [''p1'', ''p2'', ''p3''] else [''p4'', ''p5''])
      [(''b'', ''d1''), (''a'', ''d2'')] '''' ''*.png'' =
      Inr [(''b'', [''p1'', ''p2'', ''p3'']), (''a'', [''p4'', ''p5''])]
   \<and> (0::int) \<le> 1
   \<and> 1 < int (length [''p1'', ''p2'', ''p3''])
   \<and> 1 < int (length [''p4'', ''p5''])
   \<and> build_train_validation_set (\<lambda>r d e. d)
        (\<lambda>p. if p = ''d1'' then [''p1'', ''p2'', ''p3''] else [''p4'', ''p5''])
        [(''b'', ''d1''), (''a'', ''d2'')] 1 '''' ''*.png'' =
      Inr ([(''b'', [''p2'', ''p3'']), (''a'', [''p5''])], [(''b'', [''p1'']), (''a'', [''p4''])])"
proof -
  let ?glob = "\<lambda>p. if p = ''d1'' then [''p1'', ''p2'', ''p3''] else [''p4'', ''p5'']"
  let ?src = "[(''b'', ''d1''), (''a'', ''d2'')]"
  let ?ds = "[(''b'', [''p1'', ''p2'', ''p3'']), (''a'', [''p4'', ''p5''])]"
  have h1: "build_dataset (\<lambda>r d e. d) ?glob ?src '''' ''*.png'' = Inr ?ds"
    by (simp add: build_dataset_def dict_get_def)
  have h2: "(0::int) \<le> 1" by simp
  have h3: "\<forall>kp \<in> set ?ds. 1 < int (length (snd kp))" by simp
  from build_train_validation_set_split
    [of "\<lambda>r d e. d" ?glob ?src "''''" "''*.png''" ?ds 1] h1 h2 h3
  have "build_train_validation_set (\<lambda>r d e. d) ?glob ?src 1 '''' ''*.png'' =
        Inr (map (\<lambda>(k, ps). (k, drop (nat 1) ps)) ?ds,
             map (\<lambda>(k, ps). (k, take (nat 1) ps)) ?ds)"
    by blast
  then have "build_train_validation_set (\<lambda>r d e. d) ?glob ?src 1 '''' ''*.png'' =
      Inr ([(''b'', [''p2'', ''p3'']), (''a'', [''p5''])], [(''b'', [''p1'']), (''a'', [''p4''])])"
    by simp
  with h1 show ?thesis by simp
qed

text \<open>
  C6, as stated, fails for a negative \<open>val_size\<close>: with \<open>val_size\<close> -1 a class without
  paths has more than \<open>val_size\<close> paths, and the function raises \<open>ZeroDivisionError\<close>;
  and a class of three paths gets its first two paths as validation list and the last
  one as training list.
\<close>

theorem build_train_validation_set_split_counterexample:
  "build_dataset (\<lambda>r d e. d) (\<lambda>p. []) [(''a'', ''d'')] '''' ''*.png'' = Inr [(''a'', [])]
   \<and> (-1::int) < int (length ([]::path list))
   \<and> build_train_validation_set (\<lambda>r d e. d) (\<lambda>p. []) [(''a'', ''d'')] (-1) '''' ''*.png'' =
       Inl (ZeroDivisionError, [Lit ''division by zero''])
   \<and> build_dataset (\<lambda>r d e. d) (\<lambda>p. [''p1'', ''p2'', ''p3'']) [(''a'', ''d'')] '''' ''*.png'' =
       Inr [(''a'', [''p1'', ''p2'', ''p3''])]
   \<and> (-1::int) < int (length [''p1'', ''p2'', ''p3''])
   \<and> build_train_validation_set (\<lambda>r d e. d) (\<lambda>p. [''p1'', ''p2'', ''p3'']) [(''a'', ''d'')] (-1)
        '''' ''*.png'' =
       Inr ([(''a'', [''p3''])], [(''a'', [''p1'', ''p2''])])"
  by (simp add: build_train_validation_set_def build_dataset_def dict_get_def
      slice_from_def slice_upto_def)

end
